theory Spec2Isabelle
  imports Main "HOL-Library.Sublist" "HOL-Library.Multiset"
begin

section \<open>Data model (types.ts)\<close>

text \<open>
  The interface \<open>Note\<close>. The field \<open>id\<close> is named \<open>id_note\<close> here, since \<open>id\<close> is the
  identity function of HOL. Timestamps are the integers of \<open>Date.now()\<close> (milliseconds);
  the optional field \<open>color\<close> is an option.
\<close>

record Note =
  id_note :: string
  title :: string
  content :: string
  isPinned :: bool
  createdAt :: int
  lastModified :: int
  color :: "string option"

record UserProfile =
  name :: string
  avatar :: "string option"

datatype SortOption = CREATED_DESC | CREATED_ASC | MODIFIED_DESC | TITLE_ASC

datatype ViewState = view_list | view_editor | view_profile | view_settings

definition COLORS :: "string list" where
  "COLORS = [''bg-white'', ''bg-red-50'', ''bg-blue-50'', ''bg-green-50'',
             ''bg-yellow-50'', ''bg-purple-50'', ''bg-pink-50'']"

text \<open>
  \<open>Partial<Note>\<close>: every field of \<open>Note\<close> may be present or absent (\<open>None\<close>: the key is
  absent). For the optional \<open>color\<close> a present key may carry \<open>undefined\<close>.
\<close>

record NotePartial =
  p_id :: "string option"
  p_title :: "string option"
  p_content :: "string option"
  p_isPinned :: "bool option"
  p_createdAt :: "int option"
  p_lastModified :: "int option"
  p_color :: "string option option"

text \<open>The object spread \<open>{ ...n, ...updates }\<close>: a key present in \<open>updates\<close> wins.\<close>

definition spread :: "Note \<Rightarrow> NotePartial \<Rightarrow> Note" where
  "spread n updates =
     \<lparr> id_note = (case p_id updates of None \<Rightarrow> id_note n | Some v \<Rightarrow> v),
       title = (case p_title updates of None \<Rightarrow> title n | Some v \<Rightarrow> v),
       content = (case p_content updates of None \<Rightarrow> content n | Some v \<Rightarrow> v),
       isPinned = (case p_isPinned updates of None \<Rightarrow> isPinned n | Some v \<Rightarrow> v),
       createdAt = (case p_createdAt updates of None \<Rightarrow> createdAt n | Some v \<Rightarrow> v),
       lastModified = (case p_lastModified updates of None \<Rightarrow> lastModified n | Some v \<Rightarrow> v),
       color = (case p_color updates of None \<Rightarrow> color n | Some v \<Rightarrow> v) \<rparr>"

section \<open>Persistence (utils/storage.ts)\<close>

text \<open>
  What \<open>JSON.parse\<close> returns: any JSON value. The elements of an array are taken at the
  type the code declares for them (\<open>Note[]\<close>); the code casts and validates nothing.
  \<open>JSON.parse\<close> itself belongs to the platform and is a parameter of the functions that
  call it: \<open>None\<close> stands for the thrown \<open>SyntaxError\<close>.
\<close>

datatype jsvalue =
    JNull
  | JBool bool
  | JNumber int
  | JString string
  | JObject "(string \<times> jsvalue) list"
  | JArray "Note list"

text \<open>\<open>Array.isArray\<close>, and the elements that the spread \<open>...importedNotes\<close> reads from an array.\<close>

fun isArray :: "jsvalue \<Rightarrow> bool" where
  "isArray (JArray ns) = True"
| "isArray v = False"

fun elements :: "jsvalue \<Rightarrow> Note list" where
  "elements (JArray ns) = ns"
| "elements v = []"

definition STORAGE_KEY :: string where
  "STORAGE_KEY = ''notepad_pro_notes''"

definition PROFILE_KEY :: string where
  "PROFILE_KEY = ''notepad_pro_profile''"

text \<open>
  \<open>localStorage\<close> is a map from keys to strings; \<open>getItem\<close> of an absent key is \<open>null\<close>.
  The test \<open>!data\<close> holds for \<open>null\<close> and for the empty string.
\<close>

definition loadNotes :: "(string \<Rightarrow> jsvalue option) \<Rightarrow> (string \<rightharpoonup> string) \<Rightarrow> jsvalue" where
  "loadNotes JSON_parse localStorage =
     (case localStorage STORAGE_KEY of
        None \<Rightarrow> JArray []
      | Some data \<Rightarrow>
          if data = [] then JArray []
          else (case JSON_parse data of
                  Some v \<Rightarrow> v
                | None \<Rightarrow> JArray []))"

text \<open>In \<open>loadProfile\<close> the parsed value is returned at its declared type \<open>UserProfile\<close>.\<close>

definition loadProfile :: "(string \<Rightarrow> UserProfile option) \<Rightarrow> (string \<rightharpoonup> string) \<Rightarrow> UserProfile" where
  "loadProfile JSON_parse localStorage =
     (case localStorage PROFILE_KEY of
        None \<Rightarrow> \<lparr> name = ''Guest'', avatar = None \<rparr>
      | Some data \<Rightarrow>
          if data = [] then \<lparr> name = ''Guest'', avatar = None \<rparr>
          else (case JSON_parse data of
                  Some v \<Rightarrow> v
                | None \<Rightarrow> \<lparr> name = ''Guest'', avatar = None \<rparr>))"

section \<open>The component state (App)\<close>

text \<open>The state variable \<open>notes\<close> is the field \<open>notes_st\<close> (\<open>notes\<close> is a keyword of Isar).\<close>

record App =
  notes_st :: "Note list"
  profile :: UserProfile
  viewState :: ViewState
  currentNoteId :: "string option"
  searchQuery :: string
  sortBy :: SortOption

text \<open>The state of \<open>useState\<close> before the first effect runs.\<close>

definition initialApp :: App where
  "initialApp =
     \<lparr> notes_st = [], profile = \<lparr> name = ''Guest'', avatar = None \<rparr>, viewState = view_list,
       currentNoteId = None, searchQuery = [], sortBy = MODIFIED_DESC \<rparr>"

subsection \<open>The projected view (filteredNotes)\<close>

text \<open>\<open>s.includes(t)\<close>, here \<open>includes_str s t\<close>: \<open>t\<close> occurs in \<open>s\<close> at some position.\<close>

fun includes_str :: "string \<Rightarrow> string \<Rightarrow> bool" where
  "includes_str [] t = (t = [])"
| "includes_str (c # s) t = (prefix t (c # s) \<or> includes_str s t)"

text \<open>
  \<open>Array.prototype.sort\<close> with a comparison function: the platform's sort is stable, and
  for a consistent comparison function its result is the one stable sorted arrangement.
  It is modelled by a stable insertion sort: \<open>x\<close> goes before \<open>y\<close> when the comparison
  function returns a value that is not positive.
\<close>

fun insert_cmp :: "('a \<Rightarrow> 'a \<Rightarrow> int) \<Rightarrow> 'a \<Rightarrow> 'a list \<Rightarrow> 'a list" where
  "insert_cmp cmp x [] = [x]"
| "insert_cmp cmp x (y # ys) =
     (if cmp x y \<le> 0 then x # y # ys else y # insert_cmp cmp x ys)"

definition sort_cmp :: "('a \<Rightarrow> 'a \<Rightarrow> int) \<Rightarrow> 'a list \<Rightarrow> 'a list" where
  "sort_cmp cmp xs = foldr (insert_cmp cmp) xs []"

text \<open>
  The comparison function of \<open>filteredNotes\<close>. \<open>String.prototype.localeCompare\<close> depends
  on the platform's collation and is a parameter.
\<close>

definition compareNotes :: "(string \<Rightarrow> string \<Rightarrow> int) \<Rightarrow> SortOption \<Rightarrow> Note \<Rightarrow> Note \<Rightarrow> int" where
  "compareNotes localeCompare sortOpt a b =
     (if isPinned a \<and> \<not> isPinned b then - 1
      else if \<not> isPinned a \<and> isPinned b then 1
      else (case sortOpt of
              CREATED_DESC \<Rightarrow> createdAt b - createdAt a
            | CREATED_ASC \<Rightarrow> createdAt a - createdAt b
            | MODIFIED_DESC \<Rightarrow> lastModified b - lastModified a
            | TITLE_ASC \<Rightarrow> localeCompare (title a) (title b)))"

text \<open>The filter predicate; \<open>String.prototype.toLowerCase\<close> is a parameter.\<close>

definition matchesQuery :: "(string \<Rightarrow> string) \<Rightarrow> string \<Rightarrow> Note \<Rightarrow> bool" where
  "matchesQuery toLowerCase query n =
     (includes_str (toLowerCase (title n)) (toLowerCase query)
      \<or> includes_str (toLowerCase (content n)) (toLowerCase query))"

definition filteredNotes ::
  "(string \<Rightarrow> string) \<Rightarrow> (string \<Rightarrow> string \<Rightarrow> int) \<Rightarrow> Note list \<Rightarrow> string \<Rightarrow> SortOption \<Rightarrow> Note list" where
  "filteredNotes toLowerCase localeCompare ns query sortOpt =
     sort_cmp (compareNotes localeCompare sortOpt) (filter (matchesQuery toLowerCase query) ns)"

subsection \<open>The handlers\<close>

text \<open>
  \<open>handleCreateNote\<close> calls \<open>crypto.randomUUID()\<close> once and \<open>Date.now()\<close> twice: \<open>uuid\<close> is
  the identifier returned, \<open>Date_now 0\<close> and \<open>Date_now 1\<close> are the two clock readings, in
  the order of the calls.
\<close>

definition handleCreateNote :: "string \<Rightarrow> (nat \<Rightarrow> int) \<Rightarrow> App \<Rightarrow> App" where
  "handleCreateNote uuid Date_now s =
     (let newNote = \<lparr> id_note = uuid, title = [], content = [], isPinned = False,
                       createdAt = Date_now 0, lastModified = Date_now 1,
                       color = Some (COLORS ! 0) \<rparr>
      in s\<lparr> notes_st := newNote # notes_st s,
             currentNoteId := Some (id_note newNote),
             viewState := view_editor \<rparr>)"

text \<open>The handler \<open>onNoteClick\<close> that \<open>App\<close> passes to the list view.\<close>

definition onNoteClick :: "string \<Rightarrow> App \<Rightarrow> App" where
  "onNoteClick i s = s\<lparr> currentNoteId := Some i, viewState := view_editor \<rparr>"

text \<open>
  The \<open>map\<close> of \<open>handleUpdateNote\<close> calls \<open>Date.now()\<close> once for each note it replaces;
  \<open>j\<close> counts the calls made so far.
\<close>

fun updateMatching :: "string \<Rightarrow> NotePartial \<Rightarrow> (nat \<Rightarrow> int) \<Rightarrow> nat \<Rightarrow> Note list \<Rightarrow> Note list" where
  "updateMatching cid updates Date_now j [] = []"
| "updateMatching cid updates Date_now j (n # ns) =
     (if id_note n = cid
      then (spread n updates)\<lparr> lastModified := Date_now j \<rparr>
             # updateMatching cid updates Date_now (Suc j) ns
      else n # updateMatching cid updates Date_now j ns)"

text \<open>The guard \<open>!currentNoteId\<close> holds for \<open>null\<close> and for the empty string.\<close>

definition handleUpdateNote :: "NotePartial \<Rightarrow> (nat \<Rightarrow> int) \<Rightarrow> App \<Rightarrow> App" where
  "handleUpdateNote updates Date_now s =
     (case currentNoteId s of
        None \<Rightarrow> s
      | Some cid \<Rightarrow>
          if cid = [] then s
          else s\<lparr> notes_st := updateMatching cid updates Date_now 0 (notes_st s) \<rparr>)"

definition handleDeleteNote :: "string \<Rightarrow> App \<Rightarrow> App" where
  "handleDeleteNote i s =
     s\<lparr> notes_st := filter (\<lambda>n. id_note n \<noteq> i) (notes_st s),
        viewState := view_list,
        currentNoteId := None \<rparr>"

definition handleTogglePin :: "string \<Rightarrow> App \<Rightarrow> App" where
  "handleTogglePin i s =
     s\<lparr> notes_st := map (\<lambda>n. if id_note n = i then n\<lparr> isPinned := \<not> isPinned n \<rparr> else n) (notes_st s) \<rparr>"

text \<open>
  \<open>handleClearAll\<close>: \<open>isConfirmed\<close> is the answer of \<open>window.confirm\<close>. The two
  \<open>localStorage.removeItem\<close> calls and the final alert act outside the component state.
\<close>

definition handleClearAll :: "bool \<Rightarrow> App \<Rightarrow> App" where
  "handleClearAll isConfirmed s =
     (if isConfirmed
      then s\<lparr> notes_st := [],
              profile := \<lparr> name = ''Guest User'', avatar = None \<rparr>,
              viewState := view_list,
              currentNoteId := None \<rparr>
      else s)"

text \<open>
  \<open>handleImport\<close>: \<open>file\<close> is the text of the chosen file (\<open>None\<close>: no file was chosen).
  The result is the message of the alert shown, if any, and the new state.
\<close>

definition handleImport :: "(string \<Rightarrow> jsvalue option) \<Rightarrow> string option \<Rightarrow> App \<Rightarrow> string option \<times> App" where
  "handleImport JSON_parse file s =
     (case file of
        None \<Rightarrow> (None, s)
      | Some result \<Rightarrow>
          (case JSON_parse result of
             None \<Rightarrow> (Some ''Could not read backup file.'', s)
           | Some importedNotes \<Rightarrow>
               if isArray importedNotes
               then (Some ''Notes imported successfully!'',
                     s\<lparr> notes_st := elements importedNotes @ notes_st s \<rparr>)
               else (Some ''Invalid backup format.'', s)))"

subsection \<open>Sequences of user intents\<close>

text \<open>
  One intent of the user is one call of a handler. What the handler reads from the
  platform while it runs is the environment of the step: the result of
  \<open>crypto.randomUUID()\<close>, the successive readings of \<open>Date.now()\<close> (\<open>clock\<close>), the answer of
  \<open>window.confirm\<close> and the function \<open>JSON.parse\<close> (\<open>parser\<close>).
\<close>

datatype Intent =
    CreateNote
  | NoteClick string
  | UpdateNote NotePartial
  | DeleteNote string
  | TogglePin string
  | ClearAll
  | Import "string option"

record Env =
  randomUUID :: string
  clock :: "nat \<Rightarrow> int"
  confirm :: bool
  parser :: "string \<Rightarrow> jsvalue option"

fun dispatch :: "Env \<Rightarrow> Intent \<Rightarrow> App \<Rightarrow> App" where
  "dispatch env CreateNote s = handleCreateNote (randomUUID env) (clock env) s"
| "dispatch env (NoteClick i) s = onNoteClick i s"
| "dispatch env (UpdateNote updates) s = handleUpdateNote updates (clock env) s"
| "dispatch env (DeleteNote i) s = handleDeleteNote i s"
| "dispatch env (TogglePin i) s = handleTogglePin i s"
| "dispatch env ClearAll s = handleClearAll (confirm env) s"
| "dispatch env (Import file) s = snd (handleImport (parser env) file s)"

fun run :: "App \<Rightarrow> (Env \<times> Intent) list \<Rightarrow> App" where
  "run s [] = s"
| "run s ((env, i) # steps) = run (dispatch env i s) steps"

subsection \<open>What the view is to satisfy\<close>

text \<open>
  A comparison function on strings is consistent when exchanging its arguments exchanges
  negative and positive results and when its order \<open>cmp a b \<le> 0\<close> is transitive. This is
  what \<open>Array.prototype.sort\<close> asks of a comparison function, and what the platform's
  \<open>localeCompare\<close> provides.
\<close>

definition consistent :: "(string \<Rightarrow> string \<Rightarrow> int) \<Rightarrow> bool" where
  "consistent cmp =
     ((\<forall>a b. (cmp a b < 0) = (0 < cmp b a))
      \<and> (\<forall>a b c. cmp a b \<le> 0 \<longrightarrow> cmp b c \<le> 0 \<longrightarrow> cmp a c \<le> 0))"

text \<open>
  The order of the sort keys: \<open>key_le\<close> says that \<open>a\<close> may stand before \<open>b\<close> under the
  sort option, \<open>key_eq\<close> that the two notes have equal keys. Two notes are tied when
  they are in the same partition (both pinned or both unpinned) and have equal keys.
\<close>

definition key_le :: "(string \<Rightarrow> string \<Rightarrow> int) \<Rightarrow> SortOption \<Rightarrow> Note \<Rightarrow> Note \<Rightarrow> bool" where
  "key_le localeCompare sortOpt a b =
     (case sortOpt of
        CREATED_DESC \<Rightarrow> createdAt b \<le> createdAt a
      | CREATED_ASC \<Rightarrow> createdAt a \<le> createdAt b
      | MODIFIED_DESC \<Rightarrow> lastModified b \<le> lastModified a
      | TITLE_ASC \<Rightarrow> localeCompare (title a) (title b) \<le> 0)"

definition key_eq :: "(string \<Rightarrow> string \<Rightarrow> int) \<Rightarrow> SortOption \<Rightarrow> Note \<Rightarrow> Note \<Rightarrow> bool" where
  "key_eq localeCompare sortOpt a b =
     (case sortOpt of
        CREATED_DESC \<Rightarrow> createdAt a = createdAt b
      | CREATED_ASC \<Rightarrow> createdAt a = createdAt b
      | MODIFIED_DESC \<Rightarrow> lastModified a = lastModified b
      | TITLE_ASC \<Rightarrow> localeCompare (title a) (title b) = 0)"

definition tied :: "(string \<Rightarrow> string \<Rightarrow> int) \<Rightarrow> SortOption \<Rightarrow> Note \<Rightarrow> Note \<Rightarrow> bool" where
  "tied localeCompare sortOpt n m = (isPinned m = isPinned n \<and> key_eq localeCompare sortOpt m n)"

text \<open>
  The query occurs in a text, case-insensitively: the lower-cased query is a contiguous
  part of the lower-cased text.
\<close>

definition occurs_ci :: "(string \<Rightarrow> string) \<Rightarrow> string \<Rightarrow> string \<Rightarrow> bool" where
  "occurs_ci toLowerCase query t = sublist (toLowerCase query) (toLowerCase t)"

subsection \<open>Steps that keep the ids distinct\<close>

text \<open>
  \<open>ids\<close> lists the ids of the collection in order. A step is admissible when it cannot
  introduce a second note with an id that is already there: \<open>create\<close> receives an id that
  is not in the collection, the fields passed to \<open>update\<close> do not contain \<open>id\<close>, and the
  notes of an imported array have ids distinct from each other and from those of the
  collection.
\<close>

definition ids :: "App \<Rightarrow> string list" where
  "ids s = map id_note (notes_st s)"

fun admissible :: "Env \<Rightarrow> Intent \<Rightarrow> App \<Rightarrow> bool" where
  "admissible env CreateNote s = (randomUUID env \<notin> set (ids s))"
| "admissible env (UpdateNote updates) s = (p_id updates = None)"
| "admissible env (Import file) s =
     (case file of
        None \<Rightarrow> True
      | Some doc \<Rightarrow>
          (case parser env doc of
             None \<Rightarrow> True
           | Some v \<Rightarrow> isArray v \<longrightarrow> distinct (map id_note (elements v) @ ids s)))"
| "admissible env i s = True"

fun admissible_run :: "App \<Rightarrow> (Env \<times> Intent) list \<Rightarrow> bool" where
  "admissible_run s [] = True"
| "admissible_run s ((env, i) # steps) =
     (admissible env i s \<and> admissible_run (dispatch env i s) steps)"

subsection \<open>The signals of import\<close>

text \<open>
  \<open>handleImport\<close> reports a failure by an alert. \<open>ParseFailure\<close> is the message of the
  \<open>catch\<close> branch, \<open>InvalidFormat\<close> the message of the branch where \<open>Array.isArray\<close> fails.
\<close>

definition ParseFailure :: string where
  "ParseFailure = ''Could not read backup file.''"

definition InvalidFormat :: string where
  "InvalidFormat = ''Invalid backup format.''"

section \<open>Concrete notes, states and environments\<close>

text \<open>
  The two notes of the scenario, a state that holds them, a clock that advances by one
  millisecond at every reading, and a stand-in for \<open>JSON.parse\<close> that knows a handful of
  documents and rejects every other text.
\<close>

definition note_a :: Note where
  "note_a = \<lparr> id_note = ''a'', title = ''Groceries'', content = ''milk, eggs'', isPinned = False,
              createdAt = 1000, lastModified = 1000, color = Some ''bg-white'' \<rparr>"

definition note_b :: Note where
  "note_b = \<lparr> id_note = ''b'', title = ''Plan'', content = ''trip'', isPinned = True,
              createdAt = 2000, lastModified = 2500, color = Some ''bg-white'' \<rparr>"

definition app_ab :: App where
  "app_ab = \<lparr> notes_st = [note_a, note_b], profile = \<lparr> name = ''Ada'', avatar = Some ''data:image/png'' \<rparr>,
              viewState = view_list, currentNoteId = None, searchQuery = [], sortBy = MODIFIED_DESC \<rparr>"

definition clock0 :: "nat \<Rightarrow> int" where
  "clock0 j = 5000 + int j"

definition quoted :: "string \<Rightarrow> string" where
  "quoted t = CHR 0x22 # t @ [CHR 0x22]"

definition doc_string :: string where
  "doc_string = quoted ''not an array''"

definition doc_backup :: string where
  "doc_backup =
     ''[{'' @ quoted ''id'' @ '':'' @ quoted ''a'' @ '','' @ quoted ''title'' @ '':'' @ quoted ''Groceries''
     @ '','' @ quoted ''content'' @ '':'' @ quoted ''milk, eggs'' @ '','' @ quoted ''isPinned'' @ '':false,''
     @ quoted ''createdAt'' @ '':1000,'' @ quoted ''lastModified'' @ '':1000,''
     @ quoted ''color'' @ '':'' @ quoted ''bg-white'' @ ''}]''"

definition parse0 :: "string \<Rightarrow> jsvalue option" where
  "parse0 d = (if d = ''[]'' then Some (JArray [])
               else if d = ''42'' then Some (JNumber 42)
               else if d = doc_string then Some (JString ''not an array'')
               else if d = doc_backup then Some (JArray [note_a])
               else None)"

definition env0 :: Env where
  "env0 = \<lparr> randomUUID = ''u1'', clock = clock0, confirm = True, parser = parse0 \<rparr>"


definition only_title :: "string \<Rightarrow> NotePartial" where
  "only_title t = \<lparr> p_id = None, p_title = Some t, p_content = None, p_isPinned = None,
                    p_createdAt = None, p_lastModified = None, p_color = None \<rparr>"

definition only_id :: "string \<Rightarrow> NotePartial" where
  "only_id i = \<lparr> p_id = Some i, p_title = None, p_content = None, p_isPinned = None,
                 p_createdAt = None, p_lastModified = None, p_color = None \<rparr>"

definition only_createdAt :: "int \<Rightarrow> NotePartial" where
  "only_createdAt t = \<lparr> p_id = None, p_title = None, p_content = None, p_isPinned = None,
                 p_createdAt = Some t, p_lastModified = None, p_color = None \<rparr>"

definition note_noid :: Note where
  "note_noid = \<lparr> id_note = [], title = ''Imported'', content = ''no id'', isPinned = False,
              createdAt = 100, lastModified = 100, color = None \<rparr>"

definition app_noid :: App where
  "app_noid = \<lparr> notes_st = [note_noid], profile = \<lparr> name = ''Guest'', avatar = None \<rparr>,
                viewState = view_list, currentNoteId = None, searchQuery = [], sortBy = MODIFIED_DESC \<rparr>"

definition steps0 :: "(Env \<times> Intent) list" where
  "steps0 = [(env0, CreateNote), (env0, UpdateNote (only_title ''Shopping'')), (env0, TogglePin ''b''),
             (env0, DeleteNote ''a''), (env0, Import (Some doc_backup))]"

text \<open>
  For the view: a third note, a comparison of strings by code units, and a lower-casing of
  the letters A to Z, as stand-ins for the platform's \<open>localeCompare\<close> and \<open>toLowerCase\<close>.
\<close>

definition note_c :: Note where
  "note_c = \<lparr> id_note = ''c'', title = ''apple'', content = ''Eggs Benedict'', isPinned = False,
              createdAt = 3000, lastModified = 1000, color = None \<rparr>"

fun compare_units :: "string \<Rightarrow> string \<Rightarrow> int" where
  "compare_units [] [] = 0"
| "compare_units [] (y # ys) = - 1"
| "compare_units (x # xs) [] = 1"
| "compare_units (x # xs) (y # ys) =
     (if (of_char x :: nat) < of_char y then - 1
      else if (of_char y :: nat) < of_char x then 1
      else compare_units xs ys)"

definition lower_ascii :: "string \<Rightarrow> string" where
  "lower_ascii t =
     map (\<lambda>c. case map_of (zip ''ABCDEFGHIJKLMNOPQRSTUVWXYZ'' ''abcdefghijklmnopqrstuvwxyz'') c of
                None \<Rightarrow> c
              | Some l \<Rightarrow> l) t"


section \<open>Facts about the view\<close>

subsection \<open>Occurrence of the query\<close>

lemma includes_str_sublist: "includes_str s t = sublist t s"
  by (induction s) (simp_all add: sublist_Cons_right)

subsection \<open>The insertion sort\<close>

lemma mset_insert_cmp: "mset (insert_cmp cmp x ys) = add_mset x (mset ys)"
  by (induction ys) simp_all

lemma mset_sort_cmp: "mset (sort_cmp cmp xs) = mset xs"
  by (induction xs) (simp_all add: sort_cmp_def mset_insert_cmp)

lemma set_insert_cmp: "set (insert_cmp cmp x ys) = insert x (set ys)"
  by (induction ys) auto

lemma sort_cmp_Cons: "sort_cmp cmp (x # xs) = insert_cmp cmp x (sort_cmp cmp xs)"
  by (simp add: sort_cmp_def)

lemma sorted_insert_cmp:
  assumes tot: "\<And>a b. \<not> cmp a b \<le> 0 \<Longrightarrow> cmp b a \<le> 0"
    and trans: "\<And>a b c. cmp a b \<le> 0 \<Longrightarrow> cmp b c \<le> 0 \<Longrightarrow> cmp a c \<le> 0"
    and "sorted_wrt (\<lambda>a b. cmp a b \<le> 0) ys"
  shows "sorted_wrt (\<lambda>a b. cmp a b \<le> 0) (insert_cmp cmp x ys)"
  using assms(3)
proof (induction ys)
  case Nil
  then show ?case by simp
next
  case (Cons y ys)
  show ?case
  proof (cases "cmp x y \<le> 0")
    case True
    have "cmp x z \<le> 0" if "z \<in> set ys" for z
      using Cons.prems that True trans [of x y z] by simp
    with True Cons.prems show ?thesis by simp
  next
    case False
    then have "cmp y x \<le> 0" by (rule tot)
    with False Cons show ?thesis by (simp add: set_insert_cmp)
  qed
qed

lemma sorted_sort_cmp:
  assumes "\<And>a b. \<not> cmp a b \<le> 0 \<Longrightarrow> cmp b a \<le> 0"
    and "\<And>a b c. cmp a b \<le> 0 \<Longrightarrow> cmp b c \<le> 0 \<Longrightarrow> cmp a c \<le> 0"
  shows "sorted_wrt (\<lambda>a b. cmp a b \<le> 0) (sort_cmp cmp xs)"
proof (induction xs)
  case Nil
  show ?case by (simp add: sort_cmp_def)
next
  case (Cons x xs)
  from sorted_insert_cmp [of cmp, OF assms Cons.IH] show ?case
    by (simp add: sort_cmp_Cons)
qed

lemma filter_insert_cmp:
  assumes "\<And>y. y \<in> set ys \<Longrightarrow> P x \<Longrightarrow> P y \<Longrightarrow> cmp x y \<le> 0"
  shows "filter P (insert_cmp cmp x ys) = (if P x then x # filter P ys else filter P ys)"
  using assms
proof (induction ys)
  case Nil
  show ?case by simp
next
  case (Cons y ys)
  show ?case
  proof (cases "cmp x y \<le> 0")
    case True
    then show ?thesis by simp
  next
    case False
    with Cons.prems [of y] have "\<not> (P x \<and> P y)" by auto
    moreover have "filter P (insert_cmp cmp x ys) = (if P x then x # filter P ys else filter P ys)"
      using Cons.prems by (intro Cons.IH) simp_all
    ultimately show ?thesis using False by auto
  qed
qed

lemma filter_sort_cmp:
  assumes "\<And>x y. P x \<Longrightarrow> P y \<Longrightarrow> cmp x y \<le> 0"
  shows "filter P (sort_cmp cmp xs) = filter P xs"
proof (induction xs)
  case Nil
  show ?case by (simp add: sort_cmp_def)
next
  case (Cons x xs)
  have "filter P (insert_cmp cmp x (sort_cmp cmp xs))
          = (if P x then x # filter P (sort_cmp cmp xs) else filter P (sort_cmp cmp xs))"
    by (rule filter_insert_cmp) (rule assms)
  with Cons.IH show ?case by (simp add: sort_cmp_Cons)
qed

lemma sorted_wrt_partition:
  assumes "sorted_wrt R xs" and "\<And>a b. R a b \<Longrightarrow> P b \<Longrightarrow> P a"
  shows "xs = filter P xs @ filter (\<lambda>x. \<not> P x) xs"
  using assms(1)
proof (induction xs)
  case Nil
  show ?case by simp
next
  case (Cons x xs)
  then have IH: "xs = filter P xs @ filter (\<lambda>x. \<not> P x) xs" and after: "\<forall>y\<in>set xs. R x y"
    by simp_all
  show ?case
  proof (cases "P x")
    case True
    with IH show ?thesis by simp
  next
    case False
    with after assms(2) have "\<forall>y\<in>set xs. \<not> P y" by blast
    then have "filter P xs = []" and "filter (\<lambda>x. \<not> P x) xs = xs"
      by (simp_all add: filter_empty_conv filter_id_conv)
    with False show ?thesis by simp
  qed
qed

subsection \<open>The comparison function of the view\<close>

lemma compareNotes_le:
  "(compareNotes lc opt a b \<le> 0)
     = ((isPinned a \<and> \<not> isPinned b) \<or> (isPinned a = isPinned b \<and> key_le lc opt a b))"
  by (cases opt) (auto simp add: compareNotes_def key_le_def)

lemma consistent_total: "consistent lc \<Longrightarrow> \<not> lc a b \<le> 0 \<Longrightarrow> lc b a \<le> 0"
  unfolding consistent_def by (metis not_le order_less_imp_le)

lemma consistent_trans: "consistent lc \<Longrightarrow> lc a b \<le> 0 \<Longrightarrow> lc b c \<le> 0 \<Longrightarrow> lc a c \<le> 0"
  unfolding consistent_def by blast

lemma consistent_sym: "consistent lc \<Longrightarrow> lc a b = 0 \<Longrightarrow> lc b a = 0"
  unfolding consistent_def by (metis less_irrefl linorder_cases)

lemma key_le_total:
  assumes "opt = TITLE_ASC \<longrightarrow> consistent lc" and "\<not> key_le lc opt a b"
  shows "key_le lc opt b a"
  using assms by (cases opt) (auto simp add: key_le_def dest: consistent_total)

lemma key_le_trans:
  assumes "opt = TITLE_ASC \<longrightarrow> consistent lc" and "key_le lc opt a b" and "key_le lc opt b c"
  shows "key_le lc opt a c"
  using assms by (cases opt) (auto simp add: key_le_def dest: consistent_trans)

lemma compareNotes_total:
  assumes "opt = TITLE_ASC \<longrightarrow> consistent lc" and "\<not> compareNotes lc opt a b \<le> 0"
  shows "compareNotes lc opt b a \<le> 0"
  using assms key_le_total [of opt lc a b] by (auto simp add: compareNotes_le)

lemma compareNotes_trans:
  assumes "opt = TITLE_ASC \<longrightarrow> consistent lc"
    and "compareNotes lc opt a b \<le> 0" and "compareNotes lc opt b c \<le> 0"
  shows "compareNotes lc opt a c \<le> 0"
  using assms key_le_trans [of opt lc a b c] by (auto simp add: compareNotes_le)

lemma tied_compareNotes:
  assumes "opt = TITLE_ASC \<longrightarrow> consistent lc" and "tied lc opt n x" and "tied lc opt n y"
  shows "compareNotes lc opt x y \<le> 0"
proof (cases opt)
  case TITLE_ASC
  with assms have c: "consistent lc" and x: "lc (title x) (title n) = 0" and y: "lc (title y) (title n) = 0"
    and p: "isPinned x = isPinned y"
    by (simp_all add: tied_def key_eq_def)
  from consistent_sym [OF c y] have "lc (title n) (title y) \<le> 0" by simp
  with consistent_trans [OF c, of "title x" "title n" "title y"] x
  have "lc (title x) (title y) \<le> 0" by simp
  with p TITLE_ASC show ?thesis by (simp add: compareNotes_le key_le_def)
qed (use assms in \<open>auto simp add: compareNotes_le key_le_def tied_def key_eq_def\<close>)

lemma sorted_view:
  assumes "opt = TITLE_ASC \<longrightarrow> consistent lc"
  shows "sorted_wrt (\<lambda>a b. compareNotes lc opt a b \<le> 0) (filteredNotes low lc ns q opt)"
  unfolding filteredNotes_def
  by (rule sorted_sort_cmp) (use assms compareNotes_total compareNotes_trans in blast)+

subsection \<open>The comparison by code units is consistent\<close>

lemma compare_units_flip: "(compare_units a b < 0) = (0 < compare_units b a)"
proof (induction a b rule: compare_units.induct)
  case (4 x xs y ys)
  consider (lt) "(of_char x :: nat) < of_char y" | (gt) "(of_char y :: nat) < of_char x"
    | (eq) "(of_char x :: nat) = of_char y"
    by linarith
  then show ?case
  proof cases
    case lt
    then show ?thesis by simp
  next
    case gt
    then show ?thesis by simp
  next
    case eq
    then have "x = y" by simp
    with 4 show ?thesis by simp
  qed
qed simp_all

lemma compare_units_trans:
  "compare_units a b \<le> 0 \<Longrightarrow> compare_units b c \<le> 0 \<Longrightarrow> compare_units a c \<le> 0"
proof (induction a b arbitrary: c rule: compare_units.induct)
  case 1
  then show ?case by simp
next
  case (2 y ys)
  then show ?case by (cases c) simp_all
next
  case (3 x xs)
  then show ?case by simp
next
  case (4 x xs y ys)
  show ?case
  proof (cases c)
    case Nil
    with "4.prems" show ?thesis by simp
  next
    case (Cons z zs)
    from "4.prems"(1) have xy: "(of_char x :: nat) \<le> of_char y"
      by (simp split: if_splits)
    from "4.prems"(2) Cons have yz: "(of_char y :: nat) \<le> of_char z"
      by (simp split: if_splits)
    show ?thesis
    proof (cases "(of_char x :: nat) < of_char z")
      case True
      with Cons show ?thesis by simp
    next
      case False
      with xy yz have "(of_char x :: nat) = of_char y" and "(of_char y :: nat) = of_char z"
        by linarith+
      then have e1: "x = y" and e2: "y = z"
        by simp_all
      from "4.prems"(1) e1 have a: "compare_units xs ys \<le> 0" by simp
      from "4.prems"(2) Cons e2 have b: "compare_units ys zs \<le> 0" by simp
      from e1 have "\<not> (of_char x :: nat) < of_char y" "\<not> (of_char y :: nat) < of_char x"
        by simp_all
      from "4.IH" [OF this a b] e1 e2 Cons show ?thesis by simp
    qed
  qed
qed

lemma consistent_compare_units: "consistent compare_units"
  unfolding consistent_def using compare_units_flip compare_units_trans by blast

section \<open>Facts about the handlers\<close>

lemma length_updateMatching [simp]:
  "length (updateMatching cid updates Date_now j ns) = length ns"
  by (induction ns arbitrary: j) simp_all

lemma updateMatching_nth:
  "k < length ns \<Longrightarrow>
   updateMatching cid updates Date_now j ns ! k =
     (if id_note (ns ! k) = cid
      then (spread (ns ! k) updates)
             \<lparr> lastModified := Date_now (j + length (filter (\<lambda>m. id_note m = cid) (take k ns))) \<rparr>
      else ns ! k)"
proof (induction ns arbitrary: j k)
  case Nil
  then show ?case by simp
next
  case (Cons n ns)
  show ?case
  proof (cases k)
    case 0
    then show ?thesis by simp
  next
    case (Suc k')
    with Cons.prems have "k' < length ns" by simp
    from Cons.IH [OF this] Suc show ?thesis by simp
  qed
qed

lemma updateMatching_absent:
  "cid \<notin> id_note ` set ns \<Longrightarrow> updateMatching cid updates Date_now j ns = ns"
  by (induction ns arbitrary: j) auto

lemma id_note_spread: "p_id updates = None \<Longrightarrow> id_note (spread n updates) = id_note n"
  by (simp add: spread_def)

lemma ids_updateMatching:
  "p_id updates = None \<Longrightarrow> map id_note (updateMatching cid updates Date_now j ns) = map id_note ns"
  by (induction ns arbitrary: j) (simp_all add: id_note_spread)

lemma id_note_toggle:
  "id_note \<circ> (\<lambda>n::Note. if id_note n = x then n\<lparr>isPinned := \<not> isPinned n\<rparr> else n) = id_note"
  by (rule ext) simp

lemma lastModified_toggle:
  "lastModified \<circ> (\<lambda>n::Note. if id_note n = x then n\<lparr>isPinned := \<not> isPinned n\<rparr> else n) = lastModified"
  by (rule ext) simp

lemma distinct_ids_dispatch:
  assumes "distinct (ids s)" and "admissible env i s"
  shows "distinct (ids (dispatch env i s))"
proof (cases i)
  case CreateNote
  with assms show ?thesis by (simp add: ids_def handleCreateNote_def Let_def)
next
  case (NoteClick x)
  with assms show ?thesis by (simp add: ids_def onNoteClick_def)
next
  case (UpdateNote u)
  with assms show ?thesis
    by (simp add: ids_def handleUpdateNote_def ids_updateMatching split: option.splits)
next
  case (DeleteNote x)
  with assms show ?thesis by (simp add: ids_def handleDeleteNote_def distinct_map_filter)
next
  case (TogglePin x)
  with assms show ?thesis by (simp add: ids_def handleTogglePin_def id_note_toggle)
next
  case ClearAll
  with assms show ?thesis by (simp add: ids_def handleClearAll_def)
next
  case (Import f)
  with assms show ?thesis
    by (auto simp add: ids_def handleImport_def split: option.splits)
qed

section \<open>The projected view\<close>

text \<open>
  Claim C6. For every collection, query and sort option (with a consistent \<open>localeCompare\<close>
  when the titles are compared), the view places every pinned note before every unpinned
  note, each of the two partitions is ordered by the sort key, and notes of one partition
  with equal keys stand in the order they have in the collection.
\<close>

theorem view_pinned_first_sorted_stable:
  assumes "sortOpt = TITLE_ASC \<longrightarrow> consistent localeCompare"
  shows "let view = filteredNotes toLowerCase localeCompare ns query sortOpt in
           view = filter isPinned view @ filter (\<lambda>n. \<not> isPinned n) view
         \<and> sorted_wrt (key_le localeCompare sortOpt) (filter isPinned view)
         \<and> sorted_wrt (key_le localeCompare sortOpt) (filter (\<lambda>n. \<not> isPinned n) view)
         \<and> (\<forall>n. filter (tied localeCompare sortOpt n) view
                 = filter (tied localeCompare sortOpt n) (filter (matchesQuery toLowerCase query) ns))"
proof -
  define view where "view = filteredNotes toLowerCase localeCompare ns query sortOpt"
  let ?le = "\<lambda>a b. compareNotes localeCompare sortOpt a b \<le> 0"
  have sorted: "sorted_wrt ?le view"
    unfolding view_def using assms by (rule sorted_view)
  have first: "view = filter isPinned view @ filter (\<lambda>n. \<not> isPinned n) view"
    using sorted by (rule sorted_wrt_partition) (auto simp add: compareNotes_le)
  have pinned: "sorted_wrt (key_le localeCompare sortOpt) (filter isPinned view)"
  proof (rule sorted_wrt_mono_rel)
    show "sorted_wrt ?le (filter isPinned view)"
      using sorted by (rule sorted_wrt_filter)
  qed (auto simp add: compareNotes_le)
  have unpinned: "sorted_wrt (key_le localeCompare sortOpt) (filter (\<lambda>n. \<not> isPinned n) view)"
  proof (rule sorted_wrt_mono_rel)
    show "sorted_wrt ?le (filter (\<lambda>n. \<not> isPinned n) view)"
      using sorted by (rule sorted_wrt_filter)
  qed (auto simp add: compareNotes_le)
  have stable: "filter (tied localeCompare sortOpt n) view
                 = filter (tied localeCompare sortOpt n) (filter (matchesQuery toLowerCase query) ns)" for n
    unfolding view_def filteredNotes_def
    by (rule filter_sort_cmp) (use assms tied_compareNotes in blast)
  from first pinned unpinned stable show ?thesis
    unfolding view_def [symmetric] Let_def by blast
qed

theorem view_pinned_first_sorted_stable_witness:
  "filteredNotes lower_ascii compare_units [note_c, note_a, note_b] [] TITLE_ASC
       = [note_b, note_a, note_c]
   \<and> sorted_wrt (key_le compare_units TITLE_ASC) (filter (\<lambda>n. \<not> isPinned n) [note_b, note_a, note_c])
   \<and> filteredNotes lower_ascii compare_units [note_c, note_a, note_b] [] MODIFIED_DESC
       = [note_b, note_c, note_a]
   \<and> lastModified note_c = lastModified note_a
   \<and> filter (tied compare_units MODIFIED_DESC note_a)
        (filteredNotes lower_ascii compare_units [note_c, note_a, note_b] [] MODIFIED_DESC)
       = [note_c, note_a]"
proof -
  have h1: "TITLE_ASC = TITLE_ASC \<longrightarrow> consistent compare_units"
    by (simp add: consistent_compare_units)
  have h2: "MODIFIED_DESC = TITLE_ASC \<longrightarrow> consistent compare_units"
    by simp
  have v1: "filteredNotes lower_ascii compare_units [note_c, note_a, note_b] [] TITLE_ASC
              = [note_b, note_a, note_c]"
    by (simp add: filteredNotes_def sort_cmp_def matchesQuery_def lower_ascii_def compareNotes_def
        note_a_def note_b_def note_c_def)
  have v2: "filteredNotes lower_ascii compare_units [note_c, note_a, note_b] [] MODIFIED_DESC
              = [note_b, note_c, note_a]"
    by (simp add: filteredNotes_def sort_cmp_def matchesQuery_def lower_ascii_def compareNotes_def
        note_a_def note_b_def note_c_def)
  from view_pinned_first_sorted_stable [OF h1, of lower_ascii "[note_c, note_a, note_b]" "[]"]
  have "sorted_wrt (key_le compare_units TITLE_ASC)
          (filter (\<lambda>n. \<not> isPinned n)
             (filteredNotes lower_ascii compare_units [note_c, note_a, note_b] [] TITLE_ASC))"
    unfolding Let_def by blast
  then have s: "sorted_wrt (key_le compare_units TITLE_ASC) (filter (\<lambda>n. \<not> isPinned n) [note_b, note_a, note_c])"
    by (simp only: v1)
  from view_pinned_first_sorted_stable [OF h2, of lower_ascii "[note_c, note_a, note_b]" "[]"]
  have "filter (tied compare_units MODIFIED_DESC note_a)
          (filteredNotes lower_ascii compare_units [note_c, note_a, note_b] [] MODIFIED_DESC)
        = filter (tied compare_units MODIFIED_DESC note_a)
            (filter (matchesQuery lower_ascii []) [note_c, note_a, note_b])"
    unfolding Let_def by blast
  also have "\<dots> = [note_c, note_a]"
    by (simp add: tied_def key_eq_def matchesQuery_def lower_ascii_def note_a_def note_b_def note_c_def)
  finally have t: "filter (tied compare_units MODIFIED_DESC note_a)
          (filteredNotes lower_ascii compare_units [note_c, note_a, note_b] [] MODIFIED_DESC)
        = [note_c, note_a]" .
  have e: "lastModified note_c = lastModified note_a"
    by (simp add: note_a_def note_c_def)
  from v1 s v2 e t show ?thesis
    by (intro conjI)
qed

text \<open>
  Claim C7. For every collection and query, a note is in the view if and only if it is in
  the collection and the query occurs case-insensitively in its title or in its content,
  and then it is there as often as in the collection; the empty query, which lower-cases
  to itself, keeps every note.
\<close>

theorem view_filter_correct:
  "(n \<in> set (filteredNotes toLowerCase localeCompare ns query sortOpt)
      \<longleftrightarrow> n \<in> set ns \<and> (occurs_ci toLowerCase query (title n) \<or> occurs_ci toLowerCase query (content n)))
   \<and> count (mset (filteredNotes toLowerCase localeCompare ns query sortOpt)) n
       = (if occurs_ci toLowerCase query (title n) \<or> occurs_ci toLowerCase query (content n)
          then count (mset ns) n else 0)
   \<and> (toLowerCase [] = [] \<longrightarrow> mset (filteredNotes toLowerCase localeCompare ns [] sortOpt) = mset ns)"
proof -
  have m: "matchesQuery toLowerCase q x
             = (occurs_ci toLowerCase q (title x) \<or> occurs_ci toLowerCase q (content x))" for q x
    by (simp add: matchesQuery_def occurs_ci_def includes_str_sublist)
  have ms: "mset (filteredNotes toLowerCase localeCompare ns q sortOpt)
              = mset (filter (matchesQuery toLowerCase q) ns)" for q
    by (simp only: filteredNotes_def mset_sort_cmp)
  have "set (filteredNotes toLowerCase localeCompare ns query sortOpt)
          = set (filter (matchesQuery toLowerCase query) ns)"
    using ms [of query] by (rule mset_eq_setD)
  then have member: "n \<in> set (filteredNotes toLowerCase localeCompare ns query sortOpt)
      \<longleftrightarrow> n \<in> set ns \<and> (occurs_ci toLowerCase query (title n) \<or> occurs_ci toLowerCase query (content n))"
    by (simp add: m)
  have number: "count (mset (filteredNotes toLowerCase localeCompare ns query sortOpt)) n
       = (if occurs_ci toLowerCase query (title n) \<or> occurs_ci toLowerCase query (content n)
          then count (mset ns) n else 0)"
    by (simp only: ms) (simp add: m)
  have "mset (filteredNotes toLowerCase localeCompare ns [] sortOpt) = mset ns"
    if "toLowerCase [] = []"
  proof -
    from that have "matchesQuery toLowerCase [] x" for x
      by (simp add: m occurs_ci_def)
    then have "filter (matchesQuery toLowerCase []) ns = ns"
      by simp
    with ms [of "[]"] show ?thesis by simp
  qed
  with member number show ?thesis by blast
qed

theorem view_filter_correct_witness:
  "filteredNotes lower_ascii compare_units [note_a, note_b] ''EGGS'' TITLE_ASC = [note_a]
   \<and> note_a \<in> set [note_a, note_b]
   \<and> (occurs_ci lower_ascii ''EGGS'' (title note_a) \<or> occurs_ci lower_ascii ''EGGS'' (content note_a))
   \<and> \<not> (occurs_ci lower_ascii ''EGGS'' (title note_b) \<or> occurs_ci lower_ascii ''EGGS'' (content note_b))
   \<and> lower_ascii [] = []
   \<and> mset (filteredNotes lower_ascii compare_units [note_a, note_b] [] TITLE_ASC) = mset [note_a, note_b]"
proof -
  have v: "filteredNotes lower_ascii compare_units [note_a, note_b] ''EGGS'' TITLE_ASC = [note_a]"
    by (simp add: filteredNotes_def sort_cmp_def matchesQuery_def lower_ascii_def compareNotes_def
        note_a_def note_b_def)
  have a: "note_a \<in> set (filteredNotes lower_ascii compare_units [note_a, note_b] ''EGGS'' TITLE_ASC)"
    and b: "note_b \<notin> set (filteredNotes lower_ascii compare_units [note_a, note_b] ''EGGS'' TITLE_ASC)"
    and b': "note_b \<in> set [note_a, note_b]"
    by (simp_all add: v) (simp add: note_a_def note_b_def)
  have l: "lower_ascii [] = []"
    by (simp add: lower_ascii_def)
  from view_filter_correct [of note_a lower_ascii compare_units "[note_a, note_b]" "''EGGS''" TITLE_ASC] a
  have ra: "occurs_ci lower_ascii ''EGGS'' (title note_a) \<or> occurs_ci lower_ascii ''EGGS'' (content note_a)"
    by blast
  from view_filter_correct [of note_b lower_ascii compare_units "[note_a, note_b]" "''EGGS''" TITLE_ASC] b b'
  have rb: "\<not> (occurs_ci lower_ascii ''EGGS'' (title note_b) \<or> occurs_ci lower_ascii ''EGGS'' (content note_b))"
    by blast
  from view_filter_correct [of note_a lower_ascii compare_units "[note_a, note_b]" "''EGGS''" TITLE_ASC] l
  have rm: "mset (filteredNotes lower_ascii compare_units [note_a, note_b] [] TITLE_ASC) = mset [note_a, note_b]"
    by blast
  from v ra rb l rm show ?thesis
    by simp
qed

section \<open>Uniqueness of ids\<close>

text \<open>
  Claim C1, as the code has it. Starting from a collection with pairwise distinct ids, every
  sequence of admissible steps ends in a collection with pairwise distinct ids: \<open>create\<close>
  with an id that is not in the collection, \<open>update\<close> with fields that do not contain \<open>id\<close>,
  \<open>delete\<close>, \<open>togglePin\<close>, \<open>clearAll\<close>, opening a note, and \<open>import\<close> of notes whose ids are
  distinct from each other and from those of the collection.
\<close>

theorem distinct_ids_run:
  "distinct (ids s) \<Longrightarrow> admissible_run s steps \<Longrightarrow> distinct (ids (run s steps))"
proof (induction steps arbitrary: s)
  case Nil
  then show ?case by simp
next
  case (Cons step steps)
  obtain env i where step: "step = (env, i)" by (cases step)
  from Cons.prems step have "admissible env i s" and rest: "admissible_run (dispatch env i s) steps"
    by simp_all
  with Cons.prems(1) have "distinct (ids (dispatch env i s))"
    by (simp add: distinct_ids_dispatch)
  from Cons.IH [OF this rest] step show ?case by simp
qed

theorem distinct_ids_run_witness:
  "distinct (ids app_ab) \<and> admissible_run app_ab steps0
   \<and> distinct (ids (run app_ab steps0))
   \<and> ids (run app_ab steps0) = [''a'', ''u1'', ''b'']"
proof -
  have h1: "distinct (ids app_ab)"
    by (simp add: ids_def app_ab_def note_a_def note_b_def)
  have r: "ids (run app_ab steps0) = [''a'', ''u1'', ''b'']"
    by (simp add: steps0_def env0_def ids_def app_ab_def note_a_def note_b_def only_title_def
        handleCreateNote_def handleUpdateNote_def handleTogglePin_def handleDeleteNote_def
        handleImport_def parse0_def doc_string_def doc_backup_def quoted_def spread_def Let_def)
  have h2: "admissible_run app_ab steps0"
    by (simp add: steps0_def env0_def ids_def app_ab_def note_a_def note_b_def only_title_def
        handleCreateNote_def handleUpdateNote_def handleTogglePin_def handleDeleteNote_def
        handleImport_def parse0_def doc_string_def doc_backup_def quoted_def spread_def Let_def)
  from distinct_ids_run [OF h1 h2] h1 h2 r show ?thesis
    by simp
qed

text \<open>
  The claim as first stated fails: \<open>import\<close> prepends without looking at the ids, so importing
  a backup that holds a note of the collection leaves two notes with one id; and \<open>update\<close>
  with a field set that contains \<open>id\<close> can give a note the id of another.
\<close>

theorem distinct_ids_counterexample:
  "distinct (ids app_ab)
   \<and> \<not> distinct (ids (run app_ab [(env0, Import (Some doc_backup))]))
   \<and> \<not> distinct (ids (run app_ab [(env0, NoteClick ''a''), (env0, UpdateNote (only_id ''b''))]))"
  by (simp add: env0_def ids_def app_ab_def note_a_def note_b_def only_id_def onNoteClick_def
      handleUpdateNote_def handleImport_def parse0_def doc_string_def doc_backup_def quoted_def
      spread_def)

section \<open>Update\<close>

text \<open>
  Claim C3, as the code has it. For every collection and every field set, \<open>update\<close> keeps
  the length of the collection. When the current note id is not empty, every note with that
  id becomes the spread of the note and the fields with \<open>lastModified\<close> set to the clock
  reading taken when it is replaced (the first reading for the first such note), whatever
  the fields are; its \<open>id\<close> and its \<open>createdAt\<close> are unchanged when the fields do not contain
  them and are the given values when they do. Every note whose id is not the current note
  id is unchanged, and when no note has the current note id the state is unchanged.
\<close>

theorem update_refreshes_lastModified:
  "length (notes_st (handleUpdateNote updates Date_now s)) = length (notes_st s)
   \<and> (\<forall>k < length (notes_st s).
        (currentNoteId s = Some cid \<and> cid \<noteq> [] \<and> id_note (notes_st s ! k) = cid \<longrightarrow>
           notes_st (handleUpdateNote updates Date_now s) ! k
             = (spread (notes_st s ! k) updates)
                 \<lparr> lastModified := Date_now (length (filter (\<lambda>m. id_note m = cid) (take k (notes_st s)))) \<rparr>
           \<and> lastModified (notes_st (handleUpdateNote updates Date_now s) ! k)
               = Date_now (length (filter (\<lambda>m. id_note m = cid) (take k (notes_st s))))
           \<and> id_note (notes_st (handleUpdateNote updates Date_now s) ! k)
               = (case p_id updates of None \<Rightarrow> id_note (notes_st s ! k) | Some v \<Rightarrow> v)
           \<and> createdAt (notes_st (handleUpdateNote updates Date_now s) ! k)
               = (case p_createdAt updates of None \<Rightarrow> createdAt (notes_st s ! k) | Some v \<Rightarrow> v))
        \<and> (currentNoteId s \<noteq> Some (id_note (notes_st s ! k)) \<longrightarrow>
             notes_st (handleUpdateNote updates Date_now s) ! k = notes_st s ! k))
   \<and> ((\<forall>n \<in> set (notes_st s). currentNoteId s \<noteq> Some (id_note n)) \<longrightarrow>
         handleUpdateNote updates Date_now s = s)"
proof (cases "currentNoteId s")
  case None
  then show ?thesis by (simp add: handleUpdateNote_def)
next
  case (Some c)
  show ?thesis
  proof (cases "c = []")
    case True
    with Some show ?thesis by (auto simp add: handleUpdateNote_def)
  next
    case False
    have absent: "updateMatching c updates Date_now 0 (notes_st s) = notes_st s"
      if "\<forall>n \<in> set (notes_st s). c \<noteq> id_note n"
      using that by (intro updateMatching_absent) auto
    from Some False show ?thesis
      by (auto simp add: handleUpdateNote_def updateMatching_nth spread_def absent)
  qed
qed

theorem update_refreshes_lastModified_witness:
  "notes_st (handleUpdateNote (only_title ''Shopping'') clock0 (onNoteClick ''a'' app_ab)) ! 0
     = note_a\<lparr> title := ''Shopping'', lastModified := 5000 \<rparr>
   \<and> notes_st (handleUpdateNote (only_title ''Shopping'') clock0 (onNoteClick ''a'' app_ab)) ! 1 = note_b
   \<and> lastModified (notes_st (handleUpdateNote (only_id ''z'') clock0 (onNoteClick ''a'' app_ab)) ! 0) = 5000
   \<and> id_note (notes_st (handleUpdateNote (only_id ''z'') clock0 (onNoteClick ''a'' app_ab)) ! 0) = ''z''
   \<and> createdAt (notes_st (handleUpdateNote (only_createdAt 7) clock0 (onNoteClick ''a'' app_ab)) ! 0) = 7
   \<and> handleUpdateNote (only_id ''z'') clock0 (onNoteClick ''zz'' app_ab) = onNoteClick ''zz'' app_ab"
proof -
  let ?s = "onNoteClick ''a'' app_ab"
  have cur: "currentNoteId ?s = Some ''a'' \<and> ''a'' \<noteq> []"
    and k0: "(0::nat) < length (notes_st ?s)" and k1: "(1::nat) < length (notes_st ?s)"
    and i0: "id_note (notes_st ?s ! 0) = ''a''"
    and i1: "currentNoteId ?s \<noteq> Some (id_note (notes_st ?s ! 1))"
    and old: "notes_st ?s ! 0 = note_a" "notes_st ?s ! 1 = note_b"
    and first: "length (filter (\<lambda>m. id_note m = ''a'') (take 0 (notes_st ?s))) = 0"
    by (simp_all add: onNoteClick_def app_ab_def note_a_def note_b_def)
  from update_refreshes_lastModified [of "only_title ''Shopping''" clock0 ?s "''a''"] cur k0 i0
  have "notes_st (handleUpdateNote (only_title ''Shopping'') clock0 ?s) ! 0
          = (spread (notes_st ?s ! 0) (only_title ''Shopping''))
              \<lparr> lastModified := clock0 (length (filter (\<lambda>m. id_note m = ''a'') (take 0 (notes_st ?s)))) \<rparr>"
    by blast
  then have r0: "notes_st (handleUpdateNote (only_title ''Shopping'') clock0 ?s) ! 0
          = note_a\<lparr> title := ''Shopping'', lastModified := 5000 \<rparr>"
    by (simp only: old first) (simp add: spread_def only_title_def clock0_def note_a_def)
  from update_refreshes_lastModified [of "only_title ''Shopping''" clock0 ?s "''a''"] k1 i1
  have "notes_st (handleUpdateNote (only_title ''Shopping'') clock0 ?s) ! 1 = notes_st ?s ! 1"
    by blast
  then have r1: "notes_st (handleUpdateNote (only_title ''Shopping'') clock0 ?s) ! 1 = note_b"
    by (simp only: old)
  from update_refreshes_lastModified [of "only_id ''z''" clock0 ?s "''a''"] cur k0 i0
  have "lastModified (notes_st (handleUpdateNote (only_id ''z'') clock0 ?s) ! 0)
          = clock0 (length (filter (\<lambda>m. id_note m = ''a'') (take 0 (notes_st ?s))))"
    and "id_note (notes_st (handleUpdateNote (only_id ''z'') clock0 ?s) ! 0)
          = (case p_id (only_id ''z'') of None \<Rightarrow> id_note (notes_st ?s ! 0) | Some v \<Rightarrow> v)"
    by blast+
  then have r2: "lastModified (notes_st (handleUpdateNote (only_id ''z'') clock0 ?s) ! 0) = 5000"
    and r3: "id_note (notes_st (handleUpdateNote (only_id ''z'') clock0 ?s) ! 0) = ''z''"
    by (simp_all only: first) (simp_all add: clock0_def only_id_def)
  from update_refreshes_lastModified [of "only_createdAt 7" clock0 ?s "''a''"] cur k0 i0
  have "createdAt (notes_st (handleUpdateNote (only_createdAt 7) clock0 ?s) ! 0)
          = (case p_createdAt (only_createdAt 7) of None \<Rightarrow> createdAt (notes_st ?s ! 0) | Some v \<Rightarrow> v)"
    by blast
  then have r4: "createdAt (notes_st (handleUpdateNote (only_createdAt 7) clock0 ?s) ! 0) = 7"
    by (simp add: only_createdAt_def)
  have "\<forall>n \<in> set (notes_st (onNoteClick ''zz'' app_ab)).
          currentNoteId (onNoteClick ''zz'' app_ab) \<noteq> Some (id_note n)"
    by (simp add: onNoteClick_def app_ab_def note_a_def note_b_def)
  with update_refreshes_lastModified [of "only_id ''z''" clock0 "onNoteClick ''zz'' app_ab" "''a''"]
  have r5: "handleUpdateNote (only_id ''z'') clock0 (onNoteClick ''zz'' app_ab) = onNoteClick ''zz'' app_ab"
    by blast
  from r0 r1 r2 r3 r4 r5 show ?thesis
    by (intro conjI)
qed

text \<open>
  The claim as first stated fails for a field set that contains \<open>id\<close> or \<open>createdAt\<close>, which
  the spread writes into the note, and for the empty id, which the guard \<open>!currentNoteId\<close>
  treats as no current note.
\<close>

theorem update_counterexample:
  "id_note (hd (notes_st (handleUpdateNote (only_id ''z'') clock0 (onNoteClick ''a'' app_ab))))
     \<noteq> id_note (hd (notes_st (onNoteClick ''a'' app_ab)))
   \<and> createdAt (hd (notes_st (handleUpdateNote (only_createdAt 7) clock0 (onNoteClick ''a'' app_ab))))
     \<noteq> createdAt (hd (notes_st (onNoteClick ''a'' app_ab)))
   \<and> id_note (hd (notes_st (onNoteClick [] app_noid))) = []
   \<and> currentNoteId (onNoteClick [] app_noid) = Some []
   \<and> lastModified (hd (notes_st (handleUpdateNote (only_title ''x'') clock0 (onNoteClick [] app_noid))))
     \<noteq> clock0 0"
  by (simp add: handleUpdateNote_def onNoteClick_def only_id_def only_createdAt_def only_title_def
      app_ab_def app_noid_def note_a_def note_b_def note_noid_def spread_def clock0_def)

section \<open>What refreshes lastModified\<close>

text \<open>
  Claim C9, as the code has it. \<open>lastModified\<close> is set to the clock reading by every
  \<open>update\<close> of a note, whatever fields are passed; \<open>togglePin\<close> changes \<open>isPinned\<close> and leaves
  the \<open>lastModified\<close> of every note as it was.
\<close>

theorem lastModified_update_not_togglePin:
  "map lastModified (notes_st (dispatch env (TogglePin i) s)) = map lastModified (notes_st s)
   \<and> (currentNoteId s = Some cid \<and> cid \<noteq> [] \<longrightarrow>
        (\<forall>k < length (notes_st s). id_note (notes_st s ! k) = cid \<longrightarrow>
           lastModified (notes_st (dispatch env (UpdateNote updates) s) ! k)
             = clock env (length (filter (\<lambda>m. id_note m = cid) (take k (notes_st s))))))"
  by (simp add: handleTogglePin_def handleUpdateNote_def updateMatching_nth lastModified_toggle)

theorem lastModified_update_not_togglePin_witness:
  "currentNoteId (onNoteClick ''a'' app_ab) = Some ''a'' \<and> ''a'' \<noteq> []
   \<and> (0::nat) < length (notes_st (onNoteClick ''a'' app_ab))
   \<and> id_note (notes_st (onNoteClick ''a'' app_ab) ! 0) = ''a''
   \<and> lastModified (notes_st (dispatch env0 (UpdateNote (only_title ''Shopping'')) (onNoteClick ''a'' app_ab)) ! 0)
        = 5000
   \<and> map lastModified (notes_st (dispatch env0 (TogglePin ''a'') app_ab)) = [1000, 2500]"
proof -
  have a: "currentNoteId (onNoteClick ''a'' app_ab) = Some ''a'' \<and> ''a'' \<noteq> []"
    and k: "(0::nat) < length (notes_st (onNoteClick ''a'' app_ab))"
    and i: "id_note (notes_st (onNoteClick ''a'' app_ab) ! 0) = ''a''"
    by (simp_all add: onNoteClick_def app_ab_def note_a_def)
  from lastModified_update_not_togglePin
         [of env0 "''a''" "onNoteClick ''a'' app_ab" "''a''" "only_title ''Shopping''"] a k i
  have "lastModified (notes_st (dispatch env0 (UpdateNote (only_title ''Shopping'')) (onNoteClick ''a'' app_ab)) ! 0)
          = clock env0 (length (filter (\<lambda>m. id_note m = ''a'') (take 0 (notes_st (onNoteClick ''a'' app_ab)))))"
    by blast
  then have u: "lastModified (notes_st (dispatch env0 (UpdateNote (only_title ''Shopping'')) (onNoteClick ''a'' app_ab)) ! 0) = 5000"
    by (simp add: env0_def clock0_def)
  from lastModified_update_not_togglePin [of env0 "''a''" app_ab "''a''" "only_title ''Shopping''"]
  have "map lastModified (notes_st (dispatch env0 (TogglePin ''a'') app_ab)) = map lastModified (notes_st app_ab)"
    by blast
  then have t: "map lastModified (notes_st (dispatch env0 (TogglePin ''a'') app_ab)) = [1000, 2500]"
    by (simp add: app_ab_def note_a_def note_b_def)
  from a k i u t show ?thesis
    by simp
qed

text \<open>
  The claim as first stated fails: after \<open>togglePin\<close> the pin flag of the note has changed
  and its \<open>lastModified\<close> is not the clock reading of the step.
\<close>

theorem togglePin_lastModified_counterexample:
  "isPinned (hd (notes_st (dispatch env0 (TogglePin ''a'') app_ab))) \<noteq> isPinned (hd (notes_st app_ab))
   \<and> lastModified (hd (notes_st (dispatch env0 (TogglePin ''a'') app_ab))) \<noteq> clock env0 0"
  by (simp add: handleTogglePin_def env0_def clock0_def app_ab_def note_a_def note_b_def)



section \<open>Pinning\<close>

text \<open>
  Claim C2. For every collection and every id, \<open>togglePin(id)\<close> flips the \<open>isPinned\<close> flag of
  the note with that id and leaves its \<open>lastModified\<close>, and every other field of every
  note, unchanged: the collection keeps its length, and at every position the new note is
  the old one with \<open>isPinned\<close> negated when the id matches and kept otherwise. The rest of
  the state is untouched.
\<close>

theorem togglePin_flips_isPinned_only:
  "length (notes_st (handleTogglePin i s)) = length (notes_st s)
   \<and> (\<forall>k < length (notes_st s).
        notes_st (handleTogglePin i s) ! k =
          (notes_st s ! k)\<lparr> isPinned :=
             (if id_note (notes_st s ! k) = i then \<not> isPinned (notes_st s ! k)
              else isPinned (notes_st s ! k)) \<rparr>
        \<and> lastModified (notes_st (handleTogglePin i s) ! k) = lastModified (notes_st s ! k))
   \<and> profile (handleTogglePin i s) = profile s
   \<and> viewState (handleTogglePin i s) = viewState s
   \<and> currentNoteId (handleTogglePin i s) = currentNoteId s
   \<and> searchQuery (handleTogglePin i s) = searchQuery s
   \<and> sortBy (handleTogglePin i s) = sortBy s"
  by (simp add: handleTogglePin_def)

theorem togglePin_flips_isPinned_only_witness:
  "(0::nat) < length (notes_st app_ab)
   \<and> id_note (notes_st app_ab ! 0) = ''a''
   \<and> isPinned (notes_st (handleTogglePin ''a'' app_ab) ! 0) = (\<not> isPinned note_a)
   \<and> lastModified (notes_st (handleTogglePin ''a'' app_ab) ! 0) = 1000
   \<and> notes_st (handleTogglePin ''a'' app_ab) ! 1 = note_b"
proof -
  have k0: "(0::nat) < length (notes_st app_ab)" and k1: "(1::nat) < length (notes_st app_ab)"
    by (simp_all add: app_ab_def)
  from togglePin_flips_isPinned_only [of "''a''" app_ab] k0 k1
  have "notes_st (handleTogglePin ''a'' app_ab) ! 0 =
          (notes_st app_ab ! 0)\<lparr> isPinned :=
             (if id_note (notes_st app_ab ! 0) = ''a'' then \<not> isPinned (notes_st app_ab ! 0)
              else isPinned (notes_st app_ab ! 0)) \<rparr>"
    and "notes_st (handleTogglePin ''a'' app_ab) ! 1 =
          (notes_st app_ab ! 1)\<lparr> isPinned :=
             (if id_note (notes_st app_ab ! 1) = ''a'' then \<not> isPinned (notes_st app_ab ! 1)
              else isPinned (notes_st app_ab ! 1)) \<rparr>"
    by blast+
  then show ?thesis
    by (simp add: app_ab_def note_a_def note_b_def)
qed

section \<open>Import\<close>

text \<open>
  Claim C4. For every document, \<open>import\<close> signals \<open>ParseFailure\<close> when the document does not
  parse and \<open>InvalidFormat\<close> when it parses to a value that is not an array; in both cases
  the state, and with it the collection (same notes, same order), is returned unchanged.
\<close>

theorem import_failure_keeps_collection:
  "(JSON_parse doc = None \<longrightarrow> handleImport JSON_parse (Some doc) s = (Some ParseFailure, s))
   \<and> (\<forall>v. JSON_parse doc = Some v \<and> \<not> isArray v \<longrightarrow>
          handleImport JSON_parse (Some doc) s = (Some InvalidFormat, s))"
  by (simp add: handleImport_def ParseFailure_def InvalidFormat_def)

theorem import_failure_keeps_collection_witness:
  "parse0 ''{'' = None
   \<and> handleImport parse0 (Some ''{'') app_ab = (Some ''Could not read backup file.'', app_ab)
   \<and> parse0 doc_string = Some (JString ''not an array'')
   \<and> \<not> isArray (JString ''not an array'')
   \<and> handleImport parse0 (Some doc_string) app_ab = (Some ''Invalid backup format.'', app_ab)
   \<and> length (notes_st (snd (handleImport parse0 (Some doc_string) app_ab))) = 2"
proof -
  have p1: "parse0 ''{'' = None"
    by (simp add: parse0_def doc_string_def doc_backup_def quoted_def)
  have p2: "parse0 doc_string = Some (JString ''not an array'') \<and> \<not> isArray (JString ''not an array'')"
    by (simp add: parse0_def doc_string_def doc_backup_def quoted_def)
  from import_failure_keeps_collection [of parse0 "''{''" app_ab] p1
  have r1: "handleImport parse0 (Some ''{'') app_ab = (Some ParseFailure, app_ab)"
    by blast
  from import_failure_keeps_collection [of parse0 doc_string app_ab] p2
  have r2: "handleImport parse0 (Some doc_string) app_ab = (Some InvalidFormat, app_ab)"
    by blast
  show ?thesis
    using p1 p2 r1 r2 by (simp add: ParseFailure_def InvalidFormat_def app_ab_def)
qed

section \<open>Clearing\<close>

text \<open>
  Claim C5, as the code has it. Once the user has confirmed the prompt, \<open>clearAll\<close> empties
  the collection and sets the profile to the name \<open>Guest User\<close> with no avatar; when the user
  declines, the state is unchanged.
\<close>

theorem clearAll_confirmed_resets:
  "notes_st (handleClearAll True s) = []
   \<and> profile (handleClearAll True s) = \<lparr> name = ''Guest User'', avatar = None \<rparr>
   \<and> handleClearAll False s = s"
  by (simp add: handleClearAll_def)

text \<open>
  The claim as first stated fails: after a confirmed \<open>clearAll\<close> the name of the profile is
  not \<open>Guest\<close> (the profile differs from the one \<open>loadProfile\<close> falls back to), and a
  declined \<open>clearAll\<close> leaves the collection as it was.
\<close>

theorem clearAll_counterexample:
  "name (profile (handleClearAll True app_ab)) \<noteq> ''Guest''
   \<and> profile (handleClearAll True app_ab) \<noteq> loadProfile (\<lambda>d. None) Map.empty
   \<and> notes_st (handleClearAll False app_ab) \<noteq> []"
  by (simp add: handleClearAll_def app_ab_def loadProfile_def)

section \<open>Creation\<close>

text \<open>
  Claim C8 says that \<open>create\<close> puts at the front a note with the generated id, unpinned,
  with equal \<open>createdAt\<close> and \<open>lastModified\<close>, and leaves the old notes as they are.
  \<open>handleCreateNote\<close> reads the clock once for each of the two fields: with a clock that
  advances between the two readings the created note has \<open>createdAt = 5000\<close> and
  \<open>lastModified = 5001\<close>, while the rest of the claim holds.
\<close>

theorem create_timestamps_two_readings:
  "createdAt (hd (notes_st (handleCreateNote ''u1'' clock0 app_ab))) = 5000
   \<and> lastModified (hd (notes_st (handleCreateNote ''u1'' clock0 app_ab))) = 5001
   \<and> id_note (hd (notes_st (handleCreateNote ''u1'' clock0 app_ab))) = ''u1''
   \<and> \<not> isPinned (hd (notes_st (handleCreateNote ''u1'' clock0 app_ab)))
   \<and> tl (notes_st (handleCreateNote ''u1'' clock0 app_ab)) = notes_st app_ab"
  by (simp add: handleCreateNote_def clock0_def Let_def)

section \<open>Loading\<close>

text \<open>
  Claim C10. \<open>loadNotes\<close> validates parseability only. Given that \<open>JSON.parse\<close> rejects the
  empty text, for every stored string that parses \<open>loadNotes\<close> returns the parsed value as it
  is, array of notes or not; the empty collection is returned when the key is absent and
  when parsing throws.
\<close>

theorem loadNotes_returns_parsed_value:
  assumes "JSON_parse [] = None"
  shows "(localStorage STORAGE_KEY = Some data \<and> JSON_parse data = Some v
            \<longrightarrow> loadNotes JSON_parse localStorage = v)
         \<and> (localStorage STORAGE_KEY = None \<longrightarrow> loadNotes JSON_parse localStorage = JArray [])
         \<and> (localStorage STORAGE_KEY = Some data \<and> JSON_parse data = None
            \<longrightarrow> loadNotes JSON_parse localStorage = JArray [])"
  using assms by (auto simp add: loadNotes_def)

theorem loadNotes_returns_parsed_value_witness:
  "parse0 [] = None
   \<and> [STORAGE_KEY \<mapsto> ''42''] STORAGE_KEY = Some ''42'' \<and> parse0 ''42'' = Some (JNumber 42)
   \<and> loadNotes parse0 [STORAGE_KEY \<mapsto> ''42''] = JNumber 42
   \<and> \<not> isArray (loadNotes parse0 [STORAGE_KEY \<mapsto> ''42''])
   \<and> loadNotes parse0 Map.empty = JArray []
   \<and> parse0 ''{'' = None
   \<and> loadNotes parse0 [STORAGE_KEY \<mapsto> ''{''] = JArray []"
proof -
  have e: "parse0 [] = None"
    by (simp add: parse0_def doc_string_def doc_backup_def quoted_def)
  have a: "[STORAGE_KEY \<mapsto> ''42''] STORAGE_KEY = Some ''42'' \<and> parse0 ''42'' = Some (JNumber 42)"
    by (simp add: parse0_def doc_string_def doc_backup_def quoted_def)
  have b: "[STORAGE_KEY \<mapsto> ''{''] STORAGE_KEY = Some ''{'' \<and> parse0 ''{'' = None"
    by (simp add: parse0_def doc_string_def doc_backup_def quoted_def)
  have c: "Map.empty STORAGE_KEY = (None :: string option)"
    by simp
  from loadNotes_returns_parsed_value [of parse0 "[STORAGE_KEY \<mapsto> ''42'']" "''42''" "JNumber 42", OF e] a
  have r1: "loadNotes parse0 [STORAGE_KEY \<mapsto> ''42''] = JNumber 42"
    by blast
  from loadNotes_returns_parsed_value [of parse0 "Map.empty" "[]" JNull, OF e] c
  have r2: "loadNotes parse0 Map.empty = JArray []"
    by blast
  from loadNotes_returns_parsed_value [of parse0 "[STORAGE_KEY \<mapsto> ''{'']" "''{''" JNull, OF e] b
  have r3: "loadNotes parse0 [STORAGE_KEY \<mapsto> ''{''] = JArray []"
    by blast
  show ?thesis
    using e a b r1 r2 r3 by simp
qed

end
